theory Spec2Isabelle
  imports Main
begin

section \<open>Python and Twisted building blocks\<close>

text \<open>
  The sources are Python 2 (\<^verbatim>\<open>map\<close> is eager, \<^verbatim>\<open>dict.values()\<close> is a list, \<^verbatim>\<open>await\<close> is
  an ordinary parameter name). Exceptions are values of the type \<open>error\<close>; the string of a
  \<^verbatim>\<open>RuntimeError\<close> is its message.
\<close>

datatype error =
    RuntimeError string
  | IndexError
  | UnboundLocalError string
  | AlreadyCalledError
  | TorProtocolError string

text \<open>
  A Twisted \<^verbatim>\<open>Deferred\<close>, as far as these modules use it: it is pending until
  \<^verbatim>\<open>callback(None)\<close> or \<^verbatim>\<open>errback(e)\<close> fires it, and firing one that has already
  fired raises \<^verbatim>\<open>AlreadyCalledError\<close> and leaves it as it was.
\<close>

datatype deferred = Pending | Fired "error option"

definition callback :: "deferred \<Rightarrow> error + deferred" where
  "callback d = (case d of Pending \<Rightarrow> Inr (Fired None) | Fired r \<Rightarrow> Inl AlreadyCalledError)"

definition errback :: "deferred \<Rightarrow> error \<Rightarrow> error + deferred" where
  "errback d e = (case d of Pending \<Rightarrow> Inr (Fired (Some e)) | Fired r \<Rightarrow> Inl AlreadyCalledError)"

text \<open>\<^verbatim>\<open>needle in hay\<close> on two Python strings: \<open>needle\<close> occurs in \<open>hay\<close> as a contiguous run.\<close>

fun str_in :: "string \<Rightarrow> string \<Rightarrow> bool" where
  "str_in needle [] = (needle = [])"
| "str_in needle (c # cs) = (take (length needle) (c # cs) = needle \<or> str_in needle cs)"

text \<open>\<^verbatim>\<open>str.upper()\<close> on a byte string: the letters a to z move to A to Z.\<close>

definition upper_char :: "char \<Rightarrow> char" where
  "upper_char c =
     (case map_of (zip ''abcdefghijklmnopqrstuvwxyz'' ''ABCDEFGHIJKLMNOPQRSTUVWXYZ'') c of
        Some u \<Rightarrow> u
      | None \<Rightarrow> c)"

definition upper :: "string \<Rightarrow> string" where
  "upper s = map upper_char s"

text \<open>\<^verbatim>\<open>str.split()\<close> with no argument: the maximal runs of non-whitespace characters.\<close>

definition is_space :: "char \<Rightarrow> bool" where
  "is_space c = ((of_char c :: nat) \<in> {9, 10, 11, 12, 13, 32})"

fun split_acc :: "string \<Rightarrow> string \<Rightarrow> string list" where
  "split_acc cur [] = (if cur = [] then [] else [cur])"
| "split_acc cur (c # cs) =
     (if is_space c then (if cur = [] then [] else [cur]) @ split_acc [] cs
      else split_acc (cur @ [c]) cs)"

definition split :: "string \<Rightarrow> string list" where
  "split s = split_acc [] s"


section \<open>carml\_events: subscribing to daemon events\<close>

text \<open>
  The state that \<^verbatim>\<open>run\<close> and its closure \<^verbatim>\<open>_got_event\<close> share:
  \<^item> \<open>counter\<close> is \<^verbatim>\<open>counter[0]\<close> (\<open>None\<close> is Python's \<^verbatim>\<open>None\<close>: no count);
  \<^item> \<open>all_done\<close> is the \<^verbatim>\<open>Deferred\<close> of line 32 that \<^verbatim>\<open>run\<close> finally yields;
  \<^item> \<open>stdout\<close> holds the lines printed so far;
  \<^item> \<open>listeners\<close> holds the \<^verbatim>\<open>add_event_listener(e, listener)\<close> calls made so far, each as
    the event name \<open>e\<close> and the first argument that \<^verbatim>\<open>functools.partial\<close> bound
    (\<open>Some e\<close> under \<^verbatim>\<open>show_event\<close>, otherwise \<^verbatim>\<open>None\<close>);
  \<^item> \<open>raised\<close> holds the exceptions that left a listener call, in order.
\<close>

record ev_state =
  counter :: "int option"
  all_done :: deferred
  stdout :: "string list"
  listeners :: "(string \<times> string option) list"
  raised :: "error list"

text \<open>
  \<^verbatim>\<open>_got_event(evt, msg)\<close>, lines 37 to 49; \<open>ts\<close> is what \<^verbatim>\<open>time.asctime()\<close> returns at the
  call. Line 44 assigns \<^verbatim>\<open>all_done\<close> inside \<^verbatim>\<open>_got_event\<close>, and the function declares the
  name neither global nor nonlocal, so Python makes \<^verbatim>\<open>all_done\<close> a local variable of
  \<^verbatim>\<open>_got_event\<close> throughout its body: the test \<^verbatim>\<open>elif all_done\<close> of line 42 reads a local
  that has no value yet and raises \<^verbatim>\<open>UnboundLocalError\<close>. Lines 43 and 44 are never
  reached, and the \<^verbatim>\<open>Deferred\<close> of \<^verbatim>\<open>run\<close> is not touched. The counter has been
  decremented by then (line 39 mutates the shared list).
\<close>

definition got_event :: "string option \<Rightarrow> string \<Rightarrow> string \<Rightarrow> ev_state \<Rightarrow> ev_state" where
  "got_event evt msg ts s =
     (case counter s of
        Some c \<Rightarrow>
          (let s' = s\<lparr>counter := Some (c - 1)\<rparr> in
           if c - 1 \<ge> 0 then s'\<lparr>stdout := stdout s' @ [msg]\<rparr>
           else s'\<lparr>raised := raised s' @ [UnboundLocalError ''all_done'']\<rparr>)
      | None \<Rightarrow>
          (if evt \<noteq> None \<and> evt \<noteq> Some []
           then s\<lparr>stdout := stdout s @ [the evt @ '': '' @ msg]\<rparr>
           else s\<lparr>stdout := stdout s @ [ts @ '' '' @ msg]\<rparr>))"

text \<open>
  One call of a registered listener by the event dispatcher: the argument that
  \<^verbatim>\<open>functools.partial\<close> bound, the event's text, and the clock reading at the call.
\<close>

type_synonym listener_call = "string option \<times> string \<times> string"

fun deliver :: "listener_call list \<Rightarrow> ev_state \<Rightarrow> ev_state" where
  "deliver [] s = s"
| "deliver ((evt, msg, ts) # ds) s = deliver ds (got_event evt msg ts s)"

text \<open>
  How \<^verbatim>\<open>run\<close> ends: \<open>Returned\<close> when the generator returns (lines 30 and 55), \<open>Awaiting\<close>
  when it is suspended at \<^verbatim>\<open>yield all_done\<close> (line 63).
\<close>

datatype run_result = Returned | Awaiting

text \<open>The loop of lines 51 to 60 over the requested names.\<close>

fun subscribe_loop :: "string \<Rightarrow> bool \<Rightarrow> string list \<Rightarrow> ev_state \<Rightarrow> ev_state \<times> run_result" where
  "subscribe_loop all_events show_event [] s = (s, Awaiting)"
| "subscribe_loop all_events show_event (e0 # es) s =
     (let e = upper e0 in
      if \<not> str_in e all_events
      then (s\<lparr>stdout := stdout s @ [''Invalid event: '' @ e]\<rparr>, Returned)
      else subscribe_loop all_events show_event es
             (s\<lparr>listeners := listeners s @ [(e, if show_event then Some e else None)]\<rparr>))"

text \<open>
  \<^verbatim>\<open>run\<close> of carml\_events; \<open>all_events\<close> is the string the daemon answers to
  \<^verbatim>\<open>GETINFO events/names\<close>.
\<close>

definition events_run ::
  "string \<Rightarrow> bool \<Rightarrow> bool \<Rightarrow> bool \<Rightarrow> int option \<Rightarrow> string list \<Rightarrow> ev_state \<times> run_result" where
  "events_run all_events list_events once show_event count events =
     (if list_events
      then (\<lparr>counter = None, all_done = Pending, stdout = split all_events,
             listeners = [], raised = []\<rparr>, Returned)
      else subscribe_loop all_events show_event events
             \<lparr>counter = (if once then Some 1 else count), all_done = Pending, stdout = [],
              listeners = [], raised = []\<rparr>)"

text \<open>
  The listener calls that one daemon event of class \<open>name\<close> causes: one call of every
  listener registered under that name, in the order of registration.
\<close>

definition calls_for ::
  "(string \<times> string option) list \<Rightarrow> string \<times> string \<times> string \<Rightarrow> listener_call list" where
  "calls_for ls ev =
     (case ev of (name, msg, ts) \<Rightarrow> map (\<lambda>l. (snd l, msg, ts)) (filter (\<lambda>l. fst l = name) ls))"

definition dispatch :: "(string \<times> string \<times> string) list \<Rightarrow> ev_state \<Rightarrow> ev_state" where
  "dispatch evs s = deliver (concat (map (calls_for (listeners s)) evs)) s"


section \<open>carml\_circ: resolving routers and building circuits\<close>

text \<open>
  A \<^verbatim>\<open>Router\<close> of the snapshot, with its attributes \<^verbatim>\<open>name\<close> and \<^verbatim>\<open>id_hex\<close>. The snapshot
  (\<^verbatim>\<open>TorState\<close>) is read through three dictionaries; a dictionary is an association list
  in which the first entry of a key is the key's entry. Of \<^verbatim>\<open>state.circuits\<close> only the
  keys matter here.
\<close>

record router =
  router_name :: string
  id_hex :: string

record snapshot =
  routers :: "(string \<times> router) list"
  entry_guards :: "(string \<times> router) list"
  circuits :: "int list"

text \<open>\<^verbatim>\<open>d.get(k)\<close> and, for Python 2, the list \<^verbatim>\<open>d.values()\<close>: one value for every key.\<close>

definition get :: "('k \<times> 'v) list \<Rightarrow> 'k \<Rightarrow> 'v option" where
  "get d k = map_of d k"

fun dict_values :: "('k \<times> 'v) list \<Rightarrow> 'v list" where
  "dict_values [] = []"
| "dict_values (e # d) = snd e # dict_values (filter (\<lambda>x. fst x \<noteq> fst e) d)"

text \<open>
  \<^verbatim>\<open>random.choice(seq)\<close> returns \<^verbatim>\<open>seq[int(random() * len(seq))]\<close> and raises
  \<^verbatim>\<open>IndexError\<close> on an empty sequence. The number \<open>r\<close> stands for the draw; the index is
  some number below the length.
\<close>

definition choice :: "nat \<Rightarrow> 'a list \<Rightarrow> error + 'a" where
  "choice r xs = (if xs = [] then Inl IndexError else Inr (xs ! (r mod length xs)))"

text \<open>
  What \<^verbatim>\<open>find_router\<close> returns: a \<^verbatim>\<open>Router\<close> of the snapshot, or the name itself when it
  is handed through as an identity (line 125).
\<close>

datatype hop = Router router | RawId string

text \<open>
  What the circuit commands do to the outside, in order: a printed line, a
  \<^verbatim>\<open>sys.stdout.write\<close>, \<^verbatim>\<open>tor.create_state()\<close>, the build request
  \<^verbatim>\<open>state.build_circuit(routers)\<close> (\<open>None\<close> when the daemon is to select the path),
  \<^verbatim>\<open>state.close_circuit\<close> with its \<^verbatim>\<open>IfUnused\<close> flag, \<^verbatim>\<open>state.add_circuit_listener\<close> with
  the circuit id the listener tracks, and \<^verbatim>\<open>log.err\<close>; for carml\_relay,
  \<^verbatim>\<open>protocol.add_event_listener\<close> and \<^verbatim>\<open>protocol.remove_event_listener\<close> with the event
  name and the number of the callback (the closures \<^verbatim>\<open>_newconsensus\<close> are numbered as they
  are made), and the call \<^verbatim>\<open>_print_router_info(r)\<close>.
\<close>

datatype action =
    Print string
  | Write string
  | CreateState
  | BuildCircuit "hop list option"
  | CloseCircuit int bool
  | AddCircuitListener int
  | LogErr error
  | AddEventListener string nat
  | RemoveEventListener string nat
  | PrintRouterInfo router

text \<open>
  \<^verbatim>\<open>find_router\<close>, lines 114 to 128, with the snapshot of the enclosing
  \<^verbatim>\<open>build_circuit\<close>; \<open>rnd position\<close> is the draw of \<^verbatim>\<open>random.choice\<close> at that position.
  The result is the lines printed and the value returned or the exception raised.
\<close>

definition find_router ::
  "snapshot \<Rightarrow> (nat \<Rightarrow> nat) \<Rightarrow> nat \<times> string \<Rightarrow> action list \<times> (error + hop)" where
  "find_router state rnd args =
     (case args of (position, name) \<Rightarrow>
        if name = ''*'' then
          (if position = 0
           then ([], map_sum id Router (choice (rnd position) (dict_values (entry_guards state))))
           else ([], map_sum id Router (choice (rnd position) (dict_values (routers state)))))
        else
          (case (case get (routers state) name of
                   Some r \<Rightarrow> Some r
                 | None \<Rightarrow> get (routers state) (CHR ''$'' # name)) of
             Some r \<Rightarrow> ([], Inr (Router r))
           | None \<Rightarrow>
               if length name = 40
               then ([Print (''Couldn't look up '' @ name @ '', but it looks like an ID'')],
                     Inr (RawId name))
               else ([], Inl (RuntimeError (''Couldn't find router \"'' @ name @ ''\".'')))))"

text \<open>
  \<^verbatim>\<open>map(find_router, enumerate(routers))\<close> of line 129: Python 2 builds the whole list at
  once, position by position, and the first exception ends it.
\<close>

fun map_find_router ::
  "snapshot \<Rightarrow> (nat \<Rightarrow> nat) \<Rightarrow> (nat \<times> string) list \<Rightarrow> action list \<times> (error + hop list)" where
  "map_find_router state rnd [] = ([], Inr [])"
| "map_find_router state rnd (a # as) =
     (case find_router state rnd a of
        (out, Inl e) \<Rightarrow> (out, Inl e)
      | (out, Inr h) \<Rightarrow>
          (case map_find_router state rnd as of
             (out', Inl e) \<Rightarrow> (out @ out', Inl e)
           | (out', Inr hs) \<Rightarrow> (out @ out', Inr (h # hs))))"

text \<open>\<^verbatim>\<open>str.lower()\<close>, \<^verbatim>\<open>sep.join(xs)\<close> and the decimal text of an integer (\<^verbatim>\<open>%d\<close>, \<^verbatim>\<open>{}\<close>).\<close>

definition lower_char :: "char \<Rightarrow> char" where
  "lower_char c =
     (case map_of (zip ''ABCDEFGHIJKLMNOPQRSTUVWXYZ'' ''abcdefghijklmnopqrstuvwxyz'') c of
        Some u \<Rightarrow> u
      | None \<Rightarrow> c)"

definition lower :: "string \<Rightarrow> string" where
  "lower s = map lower_char s"

fun join :: "string \<Rightarrow> string list \<Rightarrow> string" where
  "join sep [] = []"
| "join sep [x] = x"
| "join sep (x # y # ys) = x @ sep @ join sep (y # ys)"

fun digits :: "nat \<Rightarrow> string" where
  "digits n =
     (if n < 10 then [''0123456789'' ! n] else digits (n div 10) @ [''0123456789'' ! (n mod 10)])"

definition str_int :: "int \<Rightarrow> string" where
  "str_int i = (if i < 0 then CHR ''-'' # digits (nat (- i)) else digits (nat i))"

text \<open>
  The functions of \<^verbatim>\<open>carml.util\<close> that the module calls; their file is not among the
  sources, so they are parameters: \<^verbatim>\<open>util.nice_router_name\<close>, \<^verbatim>\<open>util.colors.green\<close> and
  \<^verbatim>\<open>util.colors.red\<close>.
\<close>

record util =
  nice_router_name :: "hop \<Rightarrow> string"
  green :: "string \<Rightarrow> string"
  red :: "string \<Rightarrow> string"

text \<open>
  \<^verbatim>\<open>_BuiltCircuitListener\<close>: the circuit id it tracks, its flag \<^verbatim>\<open>first\<close> and its
  \<^verbatim>\<open>_all_done\<close>, the \<^verbatim>\<open>Deferred\<close> that \<^verbatim>\<open>build_circuit\<close> waits for.
\<close>

record listener =
  circid :: int
  first :: bool
  built_all_done :: deferred

text \<open>
  The notifications a circuit listener receives, each with the id of its circuit:
  \<^verbatim>\<open>circuit_extend\<close> with the name of the router, \<^verbatim>\<open>circuit_built\<close>, \<^verbatim>\<open>circuit_closed\<close>,
  and \<^verbatim>\<open>circuit_failed\<close> with the keywords \<^verbatim>\<open>reason\<close> and \<^verbatim>\<open>remote_reason\<close> when present.
\<close>

datatype notification =
    Extend int string
  | Built int
  | Closed int
  | Failed int "string option" "string option"

fun circuit_id :: "notification \<Rightarrow> int" where
  "circuit_id (Extend c n) = c"
| "circuit_id (Built c) = c"
| "circuit_id (Closed c) = c"
| "circuit_id (Failed c r rr) = c"

text \<open>
  The four methods, lines 79 to 103. Each returns the listener afterwards, what it wrote,
  and the exception that left it, if any. \<^verbatim>\<open>circuit_built\<close> and \<^verbatim>\<open>circuit_closed\<close> print
  before they fire the \<^verbatim>\<open>Deferred\<close>, so the line is out even when firing raises.
\<close>

definition circuit_extend :: "listener \<Rightarrow> int \<Rightarrow> string \<Rightarrow> listener \<times> action list \<times> error option" where
  "circuit_extend l c rname =
     (if c = circid l
      then (if first l then (l\<lparr>first := False\<rparr>, [Write rname], None)
            else (l, [Write '' -> '', Write rname], None))
      else (l, [], None))"

definition circuit_built :: "util \<Rightarrow> listener \<Rightarrow> int \<Rightarrow> listener \<times> action list \<times> error option" where
  "circuit_built u l c =
     (if c = circid l
      then (case callback (built_all_done l) of
              Inr d \<Rightarrow> (l\<lparr>built_all_done := d\<rparr>, [Print ('': '' @ green u ''built.'')], None)
            | Inl e \<Rightarrow> (l, [Print ('': '' @ green u ''built.'')], Some e))
      else (l, [], None))"

definition circuit_closed :: "util \<Rightarrow> listener \<Rightarrow> int \<Rightarrow> listener \<times> action list \<times> error option" where
  "circuit_closed u l c =
     (if c = circid l
      then (case callback (built_all_done l) of
              Inr d \<Rightarrow> (l\<lparr>built_all_done := d\<rparr>, [Print ('': '' @ red u ''closed.'')], None)
            | Inl e \<Rightarrow> (l, [Print ('': '' @ red u ''closed.'')], Some e))
      else (l, [], None))"

definition circuit_failed ::
  "util \<Rightarrow> listener \<Rightarrow> int \<Rightarrow> string option \<Rightarrow> string option \<Rightarrow> listener \<times> action list \<times> error option" where
  "circuit_failed u l c reason remote_reason =
     (if c = circid l
      then (let r = (case reason of Some x \<Rightarrow> x | None \<Rightarrow> []);
                rr = (case remote_reason of Some x \<Rightarrow> x | None \<Rightarrow> []);
                msg = red u ''failed'' @ '' ('' @ r @ '', '' @ rr @ '').''
            in case errback (built_all_done l) (RuntimeError msg) of
                 Inr d \<Rightarrow> (l\<lparr>built_all_done := d\<rparr>, [], None)
               | Inl e \<Rightarrow> (l, [], Some e))
      else (l, [], None))"

fun notify :: "util \<Rightarrow> listener \<Rightarrow> notification \<Rightarrow> listener \<times> action list \<times> error option" where
  "notify u l (Extend c rname) = circuit_extend l c rname"
| "notify u l (Built c) = circuit_built u l c"
| "notify u l (Closed c) = circuit_closed u l c"
| "notify u l (Failed c reason remote_reason) = circuit_failed u l c reason remote_reason"

text \<open>How often the \<^verbatim>\<open>Deferred\<close> of the listener changes over a run of notifications.\<close>

fun resolutions :: "util \<Rightarrow> notification list \<Rightarrow> listener \<Rightarrow> nat" where
  "resolutions u [] l = 0"
| "resolutions u (n # ns) l =
     (let l' = fst (notify u l n)
      in (if built_all_done l' \<noteq> built_all_done l then 1 else 0) + resolutions u ns l')"

text \<open>
  How \<^verbatim>\<open>build_circuit\<close> ends: an exception leaves it, or it is suspended at
  \<^verbatim>\<open>yield all_done\<close> (line 145) with its listener registered.
\<close>

datatype build_result = Raised error | Waiting listener

text \<open>
  \<^verbatim>\<open>build_circuit\<close>, lines 106 to 145. \<open>reply\<close> is what the daemon answers to the build
  request: the id of the new circuit, or an error. A \<^verbatim>\<open>TorProtocolError\<close> is caught and
  logged (line 142); \<^verbatim>\<open>all_done\<close> has not been assigned then, and line 145 raises
  \<^verbatim>\<open>UnboundLocalError\<close>. Any other error leaves the function.
\<close>

definition build_circuit ::
  "util \<Rightarrow> snapshot \<Rightarrow> (nat \<Rightarrow> nat) \<Rightarrow> error + int \<Rightarrow> string list \<Rightarrow> action list \<times> build_result" where
  "build_circuit u state rnd reply rs =
     (case (if length rs = 1 \<and> lower (rs ! 0) = ''auto'' then ([], Inr None)
            else (case map_find_router state rnd (zip [0..<length rs] rs) of
                    (out, Inl e) \<Rightarrow> (out, Inl e)
                  | (out, Inr hops) \<Rightarrow>
                      (out @ [Print (''Building circuit: '' @
                                     join ''->'' (map (nice_router_name u) hops))],
                       Inr (Some hops)))) of
        (out, Inl e) \<Rightarrow> (CreateState # out, Raised e)
      | (out, Inr path) \<Rightarrow>
          (case reply of
             Inr cid \<Rightarrow>
               (CreateState # out @
                  [BuildCircuit path, Write (''Circuit ID '' @ str_int cid @ '': ''),
                   AddCircuitListener cid],
                Waiting \<lparr>circid = cid, first = True, built_all_done = Pending\<rparr>)
           | Inl (TorProtocolError m) \<Rightarrow>
               (CreateState # out @ [BuildCircuit path, LogErr (TorProtocolError m)],
                Raised (UnboundLocalError ''all_done''))
           | Inl e \<Rightarrow> (CreateState # out @ [BuildCircuit path], Raised e)))"



text \<open>
  A small snapshot for the examples: the routers A and C, each under its name and under
  its id, the guard A, and the circuit 5.
\<close>

definition example_state :: snapshot where
  "example_state =
     \<lparr>routers = [(''A'', \<lparr>router_name = ''A'', id_hex = ''$AA''\<rparr>),
                 (''$AA'', \<lparr>router_name = ''A'', id_hex = ''$AA''\<rparr>),
                 (''C'', \<lparr>router_name = ''C'', id_hex = ''$CC''\<rparr>),
                 (''$CC'', \<lparr>router_name = ''C'', id_hex = ''$CC''\<rparr>)],
       entry_guards = [(''$AA'', \<lparr>router_name = ''A'', id_hex = ''$AA''\<rparr>)],
       circuits = [5]\<rparr>"


text \<open>
  A stand-in for \<^verbatim>\<open>carml.util\<close> in the examples: a router prints as its name and the
  colour functions leave the text as it is.
\<close>

definition plain_util :: util where
  "plain_util =
     \<lparr>nice_router_name = (\<lambda>h. case h of Router r \<Rightarrow> router_name r | RawId t \<Rightarrow> t),
      green = (\<lambda>t. t), red = (\<lambda>t. t)\<rparr>"


section \<open>carml\_relay: waiting for a router\<close>

text \<open>\<^verbatim>\<open>s.startswith(p)\<close>, and lines 98 and 99 of \<^verbatim>\<open>router_await\<close>, which put the sigil in
  front of a bare id of 40 characters.\<close>

definition startswith :: "string \<Rightarrow> string \<Rightarrow> bool" where
  "startswith s p = (take (length p) s = p)"

definition with_sigil :: "string \<Rightarrow> string" where
  "with_sigil arg = (if length arg = 40 \<and> \<not> startswith arg ''$'' then CHR ''$'' # arg else arg)"

text \<open>
  Where \<^verbatim>\<open>router_await\<close> stands: it has returned without a router (line 102), it has its
  router and has called \<^verbatim>\<open>_print_router_info\<close>, or it is suspended in \<^verbatim>\<open>_await_router\<close>
  on the \<^verbatim>\<open>Deferred\<close> of \<^verbatim>\<open>_when_updated\<close>, whose one-shot callback (with its number)
  is registered for \<^verbatim>\<open>NEWCONSENSUS\<close>.
\<close>

datatype await_phase = Finished | Found router | WaitingFor string nat

text \<open>
  \<^verbatim>\<open>router_await\<close>, lines 96 to 109, up to its first suspension: when the router is not in
  the snapshot, \<^verbatim>\<open>_await_router\<close> starts and \<^verbatim>\<open>_when_updated\<close> registers the first callback.
\<close>

definition router_await :: "snapshot \<Rightarrow> string \<Rightarrow> await_phase \<times> action list" where
  "router_await state arg0 =
     (let arg = with_sigil arg0 in
      if \<not> startswith arg ''$'' \<and> length arg = 41
      then (Finished, [Print ''Doesn't appear to be a hex router ID''])
      else (case get (routers state) arg of
              Some r \<Rightarrow> (Found r, [Print ''Router already present:'', PrintRouterInfo r])
            | None \<Rightarrow> (WaitingFor arg 0, [AddEventListener ''NEWCONSENSUS'' 0])))"

text \<open>
  One \<^verbatim>\<open>NEWCONSENSUS\<close> event; \<open>state\<close> is the snapshot as refreshed by then and \<open>now\<close> the
  text of \<^verbatim>\<open>datetime.datetime.now()\<close>. The registered callback \<^verbatim>\<open>_newconsensus\<close> (lines
  74 to 80) prints and fires its \<^verbatim>\<open>Deferred\<close>, which resumes \<^verbatim>\<open>_await_router\<close> then and
  there: with the router in \<^verbatim>\<open>state.routers\<close> it returns it and \<^verbatim>\<open>router_await\<close> goes on
  to \<^verbatim>\<open>_print_router_info\<close>; with a \<^verbatim>\<open>KeyError\<close> the loop calls \<^verbatim>\<open>_when_updated\<close> again,
  which registers the next callback. Back in \<^verbatim>\<open>_newconsensus\<close>, the callback removes
  itself. Without a registered callback the event reaches nothing of this module.
\<close>

definition newconsensus :: "snapshot \<Rightarrow> string \<Rightarrow> await_phase \<Rightarrow> await_phase \<times> action list" where
  "newconsensus state now ph =
     (case ph of
        WaitingFor router_id n \<Rightarrow>
          (case get (routers state) router_id of
             Some r \<Rightarrow>
               (Found r,
                [Print (''Got NEWCONSENSUS at '' @ now), PrintRouterInfo r,
                 RemoveEventListener ''NEWCONSENSUS'' n])
           | None \<Rightarrow>
               (WaitingFor router_id (Suc n),
                [Print (''Got NEWCONSENSUS at '' @ now),
                 AddEventListener ''NEWCONSENSUS'' (Suc n),
                 RemoveEventListener ''NEWCONSENSUS'' n]))
      | Found r \<Rightarrow> (Found r, [])
      | Finished \<Rightarrow> (Finished, []))"

text \<open>
  The callbacks registered for \<^verbatim>\<open>NEWCONSENSUS\<close> once a trace has been carried out, by
  their numbers: \<^verbatim>\<open>add_event_listener\<close> appends one, \<^verbatim>\<open>remove_event_listener\<close> takes it
  out again.
\<close>

fun callbacks_after :: "nat list \<Rightarrow> action list \<Rightarrow> nat list" where
  "callbacks_after reg [] = reg"
| "callbacks_after reg (AddEventListener e n # as) =
     callbacks_after (if e = ''NEWCONSENSUS'' then reg @ [n] else reg) as"
| "callbacks_after reg (RemoveEventListener e n # as) =
     callbacks_after (if e = ''NEWCONSENSUS'' then removeAll n reg else reg) as"
| "callbacks_after reg (a # as) = callbacks_after reg as"

definition callbacks :: "action list \<Rightarrow> nat list" where
  "callbacks tr = callbacks_after [] tr"

text \<open>
  A run of refreshes, with the trace of everything done so far. The event dispatcher
  calls what is registered: a refresh resumes the coroutine only when the callback whose
  \<^verbatim>\<open>Deferred\<close> it waits on is registered at that moment; otherwise nothing happens.
\<close>

fun refreshes ::
  "(snapshot \<times> string) list \<Rightarrow> await_phase \<times> action list \<Rightarrow> await_phase \<times> action list" where
  "refreshes [] st = st"
| "refreshes ((state, now) # rs) (ph, tr) =
     (case ph of
        WaitingFor router_id n \<Rightarrow>
          if n \<in> set (callbacks tr)
          then (case newconsensus state now ph of (ph', out) \<Rightarrow> refreshes rs (ph', tr @ out))
          else refreshes rs (ph, tr)
      | Found r \<Rightarrow> refreshes rs (ph, tr)
      | Finished \<Rightarrow> refreshes rs (ph, tr))"

text \<open>
  The routers a trace hands to \<^verbatim>\<open>_print_router_info\<close>, and the number of callbacks it
  registers.
\<close>

fun resolved_with :: "action list \<Rightarrow> router list" where
  "resolved_with [] = []"
| "resolved_with (PrintRouterInfo r # as) = r # resolved_with as"
| "resolved_with (a # as) = resolved_with as"

fun waits :: "action list \<Rightarrow> nat" where
  "waits [] = 0"
| "waits (AddEventListener e n # as) = Suc (waits as)"
| "waits (a # as) = waits as"

text \<open>A router X with an id of 40 digits, and the example snapshot once it knows X.\<close>

definition router_x :: router where
  "router_x = \<lparr>router_name = ''X'', id_hex = ''$0123456789ABCDEF0123456789ABCDEF01234567''\<rparr>"

definition example_state_x :: snapshot where
  "example_state_x =
     example_state\<lparr>routers :=
       (''$0123456789ABCDEF0123456789ABCDEF01234567'', router_x) # routers example_state\<rparr>"


section \<open>carml\_circ: deleting circuits\<close>

text \<open>
  Where one \<^verbatim>\<open>delete_circuit\<close> coroutine stands: suspended at \<^verbatim>\<open>yield tor.create_state()\<close>
  (line 55), at \<^verbatim>\<open>yield state.close_circuit(...)\<close> (line 66) or at
  \<^verbatim>\<open>yield circ.when_closed()\<close> (line 68), or its \<^verbatim>\<open>Deferred\<close> has fired: with success
  (\<open>Settled None\<close>) or with the exception that left the coroutine.
\<close>

datatype del_phase = AwaitState | AwaitCloseReply | AwaitClosed | Settled "error option"

text \<open>
  What resumes the coroutine: the snapshot, the daemon's answer to the close request
  (its status text, or an error), and the circuit's \<^verbatim>\<open>CLOSED\<close> notification.
\<close>

datatype del_event = StateReady snapshot | CloseReply "error + string" | CircuitClosed


fun delete_circuit_resume ::
  "int \<Rightarrow> bool \<Rightarrow> del_phase \<Rightarrow> del_event \<Rightarrow> del_phase \<times> action list" where
  "delete_circuit_resume cid ifunused AwaitState (StateReady state) =
     (if cid \<in> set (circuits state)
      then (AwaitCloseReply, [CloseCircuit cid ifunused])
      else (Settled (Some (RuntimeError (''No such circuit '' @ [CHR 0x27] @ str_int cid @ [CHR 0x27]))),
            []))"
| "delete_circuit_resume cid ifunused AwaitCloseReply (CloseReply (Inr status)) =
     (AwaitClosed, [Print (status @ '' (waiting for CLOSED)...'')])"
| "delete_circuit_resume cid ifunused AwaitCloseReply (CloseReply (Inl e)) =
     (Settled (Some e), [])"
| "delete_circuit_resume cid ifunused AwaitClosed CircuitClosed = (Settled None, [])"
| "delete_circuit_resume cid ifunused ph ev = (ph, [])"











section \<open>Properties of carml\_events\<close>


lemma got_event_all_done: "all_done (got_event evt msg ts s) = all_done s"
  by (simp add: got_event_def Let_def split: option.splits)

lemma deliver_all_done: "all_done (deliver ds s) = all_done s"
  by (induction ds s rule: deliver.induct) (simp_all add: got_event_all_done)

lemma subscribe_loop_eq:
  "subscribe_loop all_events show_event es s =
     (let ok = takeWhile (\<lambda>e. str_in (upper e) all_events) es;
          rest = dropWhile (\<lambda>e. str_in (upper e) all_events) es
      in (s\<lparr>stdout := stdout s @
               (case rest of [] \<Rightarrow> [] | e # r \<Rightarrow> [''Invalid event: '' @ upper e]),
            listeners := listeners s @
               map (\<lambda>e. (upper e, if show_event then Some (upper e) else None)) ok\<rparr>,
          if rest = [] then Awaiting else Returned))"
  by (induction es arbitrary: s) (simp_all add: Let_def)




text \<open>
  C2, as stated, fails: with the names \<open>circ\<close> and \<open>bogus\<close> and a daemon that knows
  \<open>CIRC\<close> and \<open>STREAM\<close>, the second name is not recognised, yet the listener for \<open>CIRC\<close>
  has been registered by then, and \<^verbatim>\<open>run\<close> prints a line and returns normally: nothing is
  raised.
\<close>

theorem C2_partial_registration:
  "\<not> str_in (upper ''bogus'') ''CIRC STREAM'' \<and>
   events_run ''CIRC STREAM'' False False False None [''circ'', ''bogus''] =
     (\<lparr>counter = None, all_done = Pending, stdout = [''Invalid event: BOGUS''],
       listeners = [(''CIRC'', None)], raised = []\<rparr>, Returned)"
proof -
  have u: "upper ''circ'' = ''CIRC''" "upper ''bogus'' = ''BOGUS''"
    by (simp_all add: upper_def upper_char_def)
  show ?thesis by (simp add: events_run_def Let_def u)
qed

text \<open>
  C2, amended. \<^verbatim>\<open>run\<close> checks and registers the names one by one, in the order given:
  the names before the first unrecognised one are registered; at that name it prints
  \<open>Invalid event:\<close> with the upper-cased name and returns normally, registering neither it nor
  any later name. With every name recognised, all are registered and \<^verbatim>\<open>run\<close> waits for
  \<^verbatim>\<open>all_done\<close>.
\<close>

theorem C2_registers_up_to_first_invalid_name:
  "events_run all_events False once show_event count events =
     (let ok = takeWhile (\<lambda>e. str_in (upper e) all_events) events;
          rest = dropWhile (\<lambda>e. str_in (upper e) all_events) events
      in (\<lparr>counter = (if once then Some 1 else count), all_done = Pending,
            stdout = (case rest of [] \<Rightarrow> [] | e # r \<Rightarrow> [''Invalid event: '' @ upper e]),
            listeners = map (\<lambda>e. (upper e, if show_event then Some (upper e) else None)) ok,
            raised = []\<rparr>,
          if rest = [] then Awaiting else Returned))"
  by (simp add: events_run_def subscribe_loop_eq Let_def)

theorem C2_witness:
  "events_run ''CIRC STREAM'' False False True (Some 2) [''stream'', ''nope'', ''circ''] =
     (\<lparr>counter = Some 2, all_done = Pending, stdout = [''Invalid event: NOPE''],
       listeners = [(''STREAM'', Some ''STREAM'')], raised = []\<rparr>, Returned)"
proof -
  have u: "upper ''stream'' = ''STREAM''" "upper ''nope'' = ''NOPE''" "upper ''circ'' = ''CIRC''"
    by (simp_all add: upper_def upper_char_def)
  show ?thesis
    using C2_registers_up_to_first_invalid_name
          [of "''CIRC STREAM''" False True "Some 2" "[''stream'', ''nope'', ''circ'']"]
    by (simp add: u)
qed

lemma deliver_unbounded:
  "counter s = None \<Longrightarrow> deliver ds s =
     s\<lparr>stdout := stdout s @
        map (\<lambda>d. case d of (evt, msg, ts) \<Rightarrow>
               if evt \<noteq> None \<and> evt \<noteq> Some [] then the evt @ '': '' @ msg else ts @ '' '' @ msg) ds\<rparr>"
  by (induction ds s rule: deliver.induct) (simp_all add: got_event_def)

lemma calls_for_single:
  "distinct (map fst ls) \<Longrightarrow> (name, evt) \<in> set ls \<Longrightarrow>
     calls_for ls (name, msg, ts) = [(evt, msg, ts)]"
proof (induction ls)
  case Nil
  then show ?case by simp
next
  case (Cons l ls)
  show ?case
  proof (cases "fst l = name")
    case True
    have notin: "name \<notin> fst ` set ls" using Cons.prems(1) True by auto
    then have "\<forall>x \<in> set ls. fst x \<noteq> name" by (metis image_eqI)
    then have "filter (\<lambda>l. fst l = name) ls = []"
      by (simp add: filter_empty_conv)
    moreover have "snd l = evt"
    proof -
      have "(name, evt) \<notin> set ls" using notin by (metis fst_conv image_eqI)
      then have "l = (name, evt)" using Cons.prems(2) by simp
      then show ?thesis by simp
    qed
    ultimately show ?thesis using True by (simp add: calls_for_def)
  next
    case False
    then show ?thesis using Cons by (auto simp: calls_for_def)
  qed
qed

text \<open>
  C7, amended. With no count and without \<^verbatim>\<open>once\<close>, every event of a subscribed class
  prints one line; the line is labelled with the event class when \<^verbatim>\<open>show_event\<close> is set
  (and the class name is not empty) and with the clock reading otherwise, however many
  classes are subscribed; \<^verbatim>\<open>all_done\<close> stays pending and no listener raises. The requested
  names are distinct after upper-casing, so that each event reaches one listener.
\<close>

theorem C7_unbounded_label_follows_show_event:
  assumes run: "events_run all_events False False show_event None events = (s, Awaiting)"
    and dist: "distinct (map upper events)"
    and evs: "\<forall>ev \<in> set evs. fst ev \<in> set (map upper events)"
  shows "stdout (dispatch evs s) =
           map (\<lambda>ev. case ev of (name, msg, ts) \<Rightarrow>
                  if show_event \<and> name \<noteq> [] then name @ '': '' @ msg else ts @ '' '' @ msg) evs
         \<and> all_done (dispatch evs s) = Pending
         \<and> raised (dispatch evs s) = []"
proof -
  let ?mk = "\<lambda>e. (upper e, if show_event then Some (upper e) else None)"
  let ?ok = "\<lambda>e. str_in (upper e) all_events"
  have rest: "dropWhile ?ok events = []"
    using run by (simp add: events_run_def subscribe_loop_eq Let_def split: if_splits)
  then have ok: "takeWhile ?ok events = events"
    by (metis takeWhile_dropWhile_id append_Nil2)
  have s: "s = \<lparr>counter = None, all_done = Pending, stdout = [],
                 listeners = map ?mk events, raised = []\<rparr>"
    using run rest ok by (simp add: events_run_def subscribe_loop_eq Let_def)
  have dl: "distinct (map fst (listeners s))"
    using dist by (simp add: s comp_def)
  have one: "calls_for (listeners s) ev =
      [(if show_event then Some (fst ev) else None, fst (snd ev), snd (snd ev))]"
    if "ev \<in> set evs" for ev
  proof -
    obtain name msg ts where ev: "ev = (name, msg, ts)" by (cases ev)
    from that evs ev obtain e where e: "e \<in> set events" "name = upper e" by auto
    then have "(name, if show_event then Some name else None) \<in> set (listeners s)"
      by (auto simp: s)
    from calls_for_single [OF dl this] ev show ?thesis by simp
  qed
  have calls: "concat (map (calls_for (listeners s)) evs) =
      map (\<lambda>ev. (if show_event then Some (fst ev) else None, fst (snd ev), snd (snd ev))) evs"
    using one by (induction evs) simp_all
  have c: "counter s = None" by (simp add: s)
  have d: "dispatch evs s = s\<lparr>stdout := stdout s @
        map (\<lambda>d. case d of (evt, msg, ts) \<Rightarrow>
               if evt \<noteq> None \<and> evt \<noteq> Some [] then the evt @ '': '' @ msg else ts @ '' '' @ msg)
          (map (\<lambda>ev. (if show_event then Some (fst ev) else None, fst (snd ev), snd (snd ev))) evs)\<rparr>"
    unfolding dispatch_def calls by (rule deliver_unbounded [OF c])
  have "stdout (dispatch evs s) =
           map (\<lambda>ev. case ev of (name, msg, ts) \<Rightarrow>
                  if show_event \<and> name \<noteq> [] then name @ '': '' @ msg else ts @ '' '' @ msg) evs"
    by (simp add: d) (simp add: s comp_def split_beta)
  moreover have "all_done (dispatch evs s) = Pending" and "raised (dispatch evs s) = []"
    by (simp_all add: d) (simp_all add: s)
  ultimately show ?thesis by simp
qed

theorem C7_witness:
  "stdout (dispatch [(''CIRC'', ''BUILT 5'', ''Tue Nov  3 19:12:00 2026''), (''STREAM'', ''NEW 9'', ''Tue Nov  3 19:12:01 2026'')]
      (fst (events_run ''CIRC STREAM'' False False True None [''circ'', ''stream''])))
     = [''CIRC: BUILT 5'', ''STREAM: NEW 9''] \<and>
   all_done (dispatch [(''CIRC'', ''BUILT 5'', ''Tue Nov  3 19:12:00 2026''), (''STREAM'', ''NEW 9'', ''Tue Nov  3 19:12:01 2026'')]
      (fst (events_run ''CIRC STREAM'' False False True None [''circ'', ''stream''])))
     = Pending"
proof -
  let ?s = "\<lparr>counter = None, all_done = Pending, stdout = [],
             listeners = [(''CIRC'', Some ''CIRC''), (''STREAM'', Some ''STREAM'')], raised = []\<rparr>"
  let ?evs = "[(''CIRC'', ''BUILT 5'', ''Tue Nov  3 19:12:00 2026''),
               (''STREAM'', ''NEW 9'', ''Tue Nov  3 19:12:01 2026'')]"
  have u: "upper ''circ'' = ''CIRC''" "upper ''stream'' = ''STREAM''"
    by (simp_all add: upper_def upper_char_def)
  have run: "events_run ''CIRC STREAM'' False False True None [''circ'', ''stream''] = (?s, Awaiting)"
    by (simp add: events_run_def Let_def u)
  have dist: "distinct (map upper [''circ'', ''stream''])"
    by (simp add: u)
  have evs: "\<forall>ev \<in> set ?evs. fst ev \<in> set (map upper [''circ'', ''stream''])"
    by (simp add: u)
  from C7_unbounded_label_follows_show_event [OF run dist evs] show ?thesis
    by (simp add: run)
qed

text \<open>
  C7, as stated, fails in both directions: with two classes subscribed and \<^verbatim>\<open>show_event\<close>
  off, an event is labelled with the clock reading; with one class subscribed and
  \<^verbatim>\<open>show_event\<close> on, it is labelled with its class.
\<close>

theorem C7_label_ignores_number_of_classes:
  "stdout (dispatch [(''CIRC'', ''BUILT 5'', ''Tue Nov  3 19:12:00 2026'')]
      (fst (events_run ''CIRC STREAM'' False False False None [''circ'', ''stream''])))
     = [''Tue Nov  3 19:12:00 2026 BUILT 5''] \<and>
   stdout (dispatch [(''CIRC'', ''BUILT 5'', ''Tue Nov  3 19:12:00 2026'')]
      (fst (events_run ''CIRC STREAM'' False False True None [''circ''])))
     = [''CIRC: BUILT 5'']"
proof -
  have u: "upper ''circ'' = ''CIRC''" "upper ''stream'' = ''STREAM''"
    by (simp_all add: upper_def upper_char_def)
  show ?thesis
    by (simp add: events_run_def Let_def u dispatch_def calls_for_def got_event_def)
qed

lemma deliver_exhausted:
  "counter s = Some n \<Longrightarrow> n \<le> 0 \<Longrightarrow>
     deliver ds s = s\<lparr>counter := Some (n - int (length ds)),
        raised := raised s @ replicate (length ds) (UnboundLocalError ''all_done'')\<rparr>"
proof (induction ds arbitrary: s n)
  case Nil
  then show ?case by simp
next
  case (Cons d ds)
  obtain evt msg ts where d: "d = (evt, msg, ts)" by (cases d)
  let ?s1 = "got_event evt msg ts s"
  have s1: "?s1 = s\<lparr>counter := Some (n - 1),
      raised := raised s @ [UnboundLocalError ''all_done'']\<rparr>"
    using Cons.prems by (simp add: got_event_def)
  have "deliver ds ?s1 = ?s1\<lparr>counter := Some (n - 1 - int (length ds)),
        raised := raised ?s1 @ replicate (length ds) (UnboundLocalError ''all_done'')\<rparr>"
    using Cons.prems by (intro Cons.IH) (simp_all add: s1)
  then show ?case
    by (simp add: d s1 replicate_app_Cons_same)
qed

lemma deliver_counted:
  "counter s = Some n \<Longrightarrow> 0 \<le> n \<Longrightarrow>
     deliver ds s = s\<lparr>counter := Some (n - int (length ds)),
        stdout := stdout s @ map (\<lambda>d. fst (snd d)) (take (nat n) ds),
        raised := raised s @ replicate (length ds - nat n) (UnboundLocalError ''all_done'')\<rparr>"
proof (induction ds arbitrary: s n)
  case Nil
  then show ?case by simp
next
  case (Cons d ds)
  obtain evt msg ts where d: "d = (evt, msg, ts)" by (cases d)
  let ?s1 = "got_event evt msg ts s"
  show ?case
  proof (cases "n = 0")
    case True
    have s1: "?s1 = s\<lparr>counter := Some (- 1),
        raised := raised s @ [UnboundLocalError ''all_done'']\<rparr>"
      using Cons.prems True by (simp add: got_event_def)
    have "deliver ds ?s1 = ?s1\<lparr>counter := Some (- 1 - int (length ds)),
        raised := raised ?s1 @ replicate (length ds) (UnboundLocalError ''all_done'')\<rparr>"
      by (rule deliver_exhausted) (simp_all add: s1)
    then show ?thesis
      using True by (simp add: d s1 replicate_app_Cons_same)
  next
    case False
    then have pos: "0 \<le> n - 1" using Cons.prems by simp
    have s1: "?s1 = s\<lparr>counter := Some (n - 1), stdout := stdout s @ [msg]\<rparr>"
      using Cons.prems pos by (simp add: got_event_def)
    have "deliver ds ?s1 = ?s1\<lparr>counter := Some (n - 1 - int (length ds)),
        stdout := stdout ?s1 @ map (\<lambda>d. fst (snd d)) (take (nat (n - 1)) ds),
        raised := raised ?s1 @ replicate (length ds - nat (n - 1)) (UnboundLocalError ''all_done'')\<rparr>"
      using pos by (intro Cons.IH) (simp_all add: s1)
    moreover have "nat n = Suc (nat (n - 1))" using pos by simp
    ultimately show ?thesis
      by (simp add: d s1)
  qed
qed

text \<open>
  C4 on the code. With a count of 3 the first three events are printed; the fourth
  call of the listener decrements the counter to -1 and raises \<^verbatim>\<open>UnboundLocalError\<close> at
  the test of line 42, and \<^verbatim>\<open>all_done\<close> is still pending: the \<^verbatim>\<open>Deferred\<close> that
  \<^verbatim>\<open>run\<close> waits for never fires.
\<close>

theorem C4_count_three_never_resolves:
  "dispatch [(''CIRC'', ''e1'', ''t1''), (''CIRC'', ''e2'', ''t2''), (''CIRC'', ''e3'', ''t3''),
             (''CIRC'', ''e4'', ''t4'')]
     (fst (events_run ''CIRC STREAM'' False False False (Some 3) [''circ'']))
   = \<lparr>counter = Some (- 1), all_done = Pending, stdout = [''e1'', ''e2'', ''e3''],
       listeners = [(''CIRC'', None)], raised = [UnboundLocalError ''all_done'']\<rparr>"
proof -
  have u: "upper ''circ'' = ''CIRC''"
    by (simp add: upper_def upper_char_def)
  show ?thesis
    by (simp add: events_run_def Let_def u dispatch_def calls_for_def got_event_def)
qed


section \<open>Properties of carml\_circ\<close>

lemma map_of_filter_neq: "map_of (filter (\<lambda>x. fst x \<noteq> k) d) = (map_of d)(k := None)"
  by (induction d) (auto simp: fun_eq_iff)

lemma set_dict_values: "set (dict_values d) = ran (map_of d)"
proof (induction d rule: dict_values.induct)
  case 1
  then show ?case by simp
next
  case (2 e d)
  obtain k v where e: "e = (k, v)" by (cases e)
  let ?rest = "filter (\<lambda>x. fst x \<noteq> k) d"
  have ih: "set (dict_values ?rest) = ran (map_of ?rest)"
    using 2 by (simp add: e)
  have "map_of (e # d) = ((map_of d)(k := None))(k \<mapsto> v)"
    by (simp add: e)
  then have "ran (map_of (e # d)) = insert v (ran ((map_of d)(k := None)))"
    by (simp only: ran_map_upd fun_upd_same)
  also have "\<dots> = insert v (ran (map_of ?rest))"
    by (simp only: map_of_filter_neq)
  also have "\<dots> = set (dict_values (e # d))"
    by (simp add: e ih [symmetric])
  finally show ?case by (rule sym)
qed

lemma choice_member: "xs \<noteq> [] \<Longrightarrow> \<exists>x \<in> set xs. choice r xs = Inr x"
  by (simp add: choice_def)

lemma dict_values_Nil: "dict_values d = [] \<longleftrightarrow> d = []"
  by (cases d) simp_all

text \<open>
  C8. The wildcard at position 0 resolves to a value of \<^verbatim>\<open>state.entry_guards\<close>, and at
  every later position to a value of \<^verbatim>\<open>state.routers\<close>, whatever the draw; a result
  exists whenever the dictionary in question is not empty, and on an empty one
  \<^verbatim>\<open>random.choice\<close> raises \<^verbatim>\<open>IndexError\<close>.
\<close>

theorem C8_wildcard_in_candidate_set:
  "(entry_guards state \<noteq> [] \<longrightarrow>
      (\<exists>r \<in> ran (map_of (entry_guards state)).
          find_router state rnd (0, ''*'') = ([], Inr (Router r)))) \<and>
   (entry_guards state = [] \<longrightarrow> find_router state rnd (0, ''*'') = ([], Inl IndexError)) \<and>
   (0 < position \<and> routers state \<noteq> [] \<longrightarrow>
      (\<exists>r \<in> ran (map_of (routers state)).
          find_router state rnd (position, ''*'') = ([], Inr (Router r)))) \<and>
   (0 < position \<and> routers state = [] \<longrightarrow>
      find_router state rnd (position, ''*'') = ([], Inl IndexError))"
proof -
  have pick: "\<exists>r \<in> ran (map_of d). choice n (dict_values d) = Inr r" if "d \<noteq> []"
    for d :: "(string \<times> router) list" and n
    using choice_member [of "dict_values d" n] that
    by (simp add: dict_values_Nil set_dict_values)
  have guards: "\<exists>r \<in> ran (map_of (entry_guards state)).
      find_router state rnd (0, ''*'') = ([], Inr (Router r))" if "entry_guards state \<noteq> []"
    using pick [OF that, of "rnd 0"] by (auto simp: find_router_def)
  have all: "\<exists>r \<in> ran (map_of (routers state)).
      find_router state rnd (position, ''*'') = ([], Inr (Router r))"
    if "0 < position" "routers state \<noteq> []"
    using pick [OF that(2), of "rnd position"] that(1) by (auto simp: find_router_def)
  have "find_router state rnd (0, ''*'') = ([], Inl IndexError)" if "entry_guards state = []"
    using that by (simp add: find_router_def choice_def)
  moreover have "find_router state rnd (position, ''*'') = ([], Inl IndexError)"
    if "0 < position" "routers state = []"
    using that by (simp add: find_router_def choice_def)
  ultimately show ?thesis using guards all by blast
qed

theorem C8_witness:
  "entry_guards example_state \<noteq> [] \<and>
   find_router example_state (\<lambda>i. 6) (0, ''*'') =
     ([], Inr (Router \<lparr>router_name = ''A'', id_hex = ''$AA''\<rparr>)) \<and>
   (0::nat) < 2 \<and> routers example_state \<noteq> [] \<and>
   find_router example_state (\<lambda>i. 6) (2, ''*'') =
     ([], Inr (Router \<lparr>router_name = ''C'', id_hex = ''$CC''\<rparr>)) \<and>
   \<lparr>router_name = ''C'', id_hex = ''$CC''\<rparr> \<in> ran (map_of (routers example_state))"
proof -
  have v: "dict_values (routers example_state) =
      [\<lparr>router_name = ''A'', id_hex = ''$AA''\<rparr>, \<lparr>router_name = ''A'', id_hex = ''$AA''\<rparr>,
       \<lparr>router_name = ''C'', id_hex = ''$CC''\<rparr>, \<lparr>router_name = ''C'', id_hex = ''$CC''\<rparr>]"
    by (simp add: example_state_def)
  have f: "find_router example_state (\<lambda>i. 6) (2, ''*'') =
     ([], Inr (Router \<lparr>router_name = ''C'', id_hex = ''$CC''\<rparr>))"
    by (simp add: find_router_def choice_def v)
  have g: "find_router example_state (\<lambda>i. 6) (0, ''*'') =
     ([], Inr (Router \<lparr>router_name = ''A'', id_hex = ''$AA''\<rparr>))"
    by (simp add: find_router_def choice_def example_state_def)
  have ne: "entry_guards example_state \<noteq> []" "routers example_state \<noteq> []"
    by (simp_all add: example_state_def)
  from C8_wildcard_in_candidate_set [of example_state "\<lambda>i. 6" 2] ne f g show ?thesis
    by auto
qed

lemma find_router_unknown:
  "get (routers state) nm = None \<Longrightarrow> get (routers state) (CHR ''$'' # nm) = None \<Longrightarrow>
   nm \<noteq> ''*'' \<Longrightarrow> length nm \<noteq> 40 \<Longrightarrow>
   find_router state rnd (position, nm) =
     ([], Inl (RuntimeError (''Couldn't find router \"'' @ nm @ ''\".'')))"
  by (simp add: find_router_def)

lemma find_router_known:
  "get (routers state) nm \<noteq> None \<or> get (routers state) (CHR ''$'' # nm) \<noteq> None \<Longrightarrow>
   nm \<noteq> ''*'' \<Longrightarrow> \<exists>r. find_router state rnd (position, nm) = ([], Inr (Router r))"
  by (auto simp: find_router_def split: option.splits)

text \<open>
  C5. With the path A, B, where A is in \<^verbatim>\<open>state.routers\<close> under its name or under its
  name with the sigil and B under neither, \<^verbatim>\<open>build_circuit\<close> ends with the
  \<^verbatim>\<open>RuntimeError\<close> that names B; all it has done by then is \<^verbatim>\<open>tor.create_state()\<close>, and
  no build request is in its trace, whatever the daemon would have answered.
\<close>

theorem C5_unknown_hop_stops_before_build:
  assumes a: "get (routers state) ''A'' \<noteq> None \<or> get (routers state) ''$A'' \<noteq> None"
    and b: "get (routers state) ''B'' = None" "get (routers state) ''$B'' = None"
  shows "build_circuit u state rnd reply [''A'', ''B''] =
           ([CreateState], Raised (RuntimeError ''Couldn't find router \"B\".'')) \<and>
         (\<forall>path. BuildCircuit path \<notin> set (fst (build_circuit u state rnd reply [''A'', ''B''])))"
proof -
  obtain r where ra: "find_router state rnd (0, ''A'') = ([], Inr (Router r))"
    using find_router_known [of state "''A''" rnd 0] a by auto
  have rb: "find_router state rnd (1, ''B'') =
      ([], Inl (RuntimeError ''Couldn't find router \"B\".''))"
    using find_router_unknown [of state "''B''" rnd 1] b by simp
  have z: "zip [0..<length [''A'', ''B'']] [''A'', ''B''] = [(0, ''A''), (1, ''B'')]"
    by (simp add: upt_rec)
  have "map_find_router state rnd [(0, ''A''), (1, ''B'')] =
      ([], Inl (RuntimeError ''Couldn't find router \"B\".''))"
    using ra rb by simp
  then have "build_circuit u state rnd reply [''A'', ''B''] =
           ([CreateState], Raised (RuntimeError ''Couldn't find router \"B\".''))"
    unfolding build_circuit_def z by simp
  then show ?thesis by simp
qed

theorem C5_witness:
  "get (routers example_state) ''A'' \<noteq> None \<and>
   get (routers example_state) ''B'' = None \<and> get (routers example_state) ''$B'' = None \<and>
   build_circuit plain_util example_state (\<lambda>i. 0) (Inr 7) [''A'', ''B''] =
     ([CreateState], Raised (RuntimeError ''Couldn't find router \"B\".''))"
proof -
  have a: "get (routers example_state) ''A'' \<noteq> None \<or> get (routers example_state) ''$A'' \<noteq> None"
    by (simp add: get_def example_state_def)
  have b: "get (routers example_state) ''B'' = None" "get (routers example_state) ''$B'' = None"
    by (simp_all add: get_def example_state_def)
  have "get (routers example_state) ''A'' \<noteq> None"
    by (simp add: get_def example_state_def)
  with b C5_unknown_hop_stops_before_build [OF a b] show ?thesis
    by simp
qed





lemma notify_other_id: "circuit_id n \<noteq> circid l \<Longrightarrow> notify u l n = (l, [], None)"
  by (cases n)
     (simp_all add: circuit_extend_def circuit_built_def circuit_closed_def circuit_failed_def)

lemma notify_change:
  "built_all_done (fst (notify u l n)) \<noteq> built_all_done l \<Longrightarrow>
     built_all_done l = Pending \<and>
     (n = Built (circid l) \<or> n = Closed (circid l) \<or> (\<exists>r rr. n = Failed (circid l) r rr))"
  by (cases n; cases "built_all_done l")
     (auto simp: circuit_extend_def circuit_built_def circuit_closed_def circuit_failed_def
         callback_def errback_def Let_def split: if_splits)

lemma notify_fired:
  "built_all_done l \<noteq> Pending \<Longrightarrow> built_all_done (fst (notify u l n)) = built_all_done l"
  using notify_change [of u l n] by blast

lemma resolutions_fired: "built_all_done l \<noteq> Pending \<Longrightarrow> resolutions u ns l = 0"
  by (induction ns arbitrary: l) (simp_all add: Let_def notify_fired)

lemma resolutions_le_1: "resolutions u ns l \<le> 1"
proof (induction ns arbitrary: l)
  case Nil
  then show ?case by simp
next
  case (Cons n ns)
  let ?l' = "fst (notify u l n)"
  show ?case
  proof (cases "built_all_done ?l' \<noteq> built_all_done l")
    case True
    then have "built_all_done l = Pending" using notify_change by blast
    with True have "built_all_done ?l' \<noteq> Pending" by simp
    then have "resolutions u ns ?l' = 0" by (rule resolutions_fired)
    then show ?thesis using True by (simp add: Let_def)
  next
    case False
    then show ?thesis using Cons.IH [of ?l'] by (simp add: Let_def)
  qed
qed

text \<open>
  C1, amended. Over any run of notifications the \<^verbatim>\<open>Deferred\<close> of a listener changes at
  most once. A notification for another circuit id changes nothing, writes nothing and
  raises nothing. The \<^verbatim>\<open>Deferred\<close> changes only while it is pending and only on
  \<^verbatim>\<open>built\<close>, \<^verbatim>\<open>closed\<close> or \<^verbatim>\<open>failed\<close> for the tracked id: \<^verbatim>\<open>built\<close> and \<^verbatim>\<open>closed\<close> fire it
  with success, \<^verbatim>\<open>failed\<close> with a \<^verbatim>\<open>RuntimeError\<close> that carries the two reasons.
\<close>

theorem C1_listener_resolves_once:
  "resolutions u ns l \<le> 1 \<and>
   (circuit_id n \<noteq> circid l \<longrightarrow> notify u l n = (l, [], None)) \<and>
   (built_all_done (fst (notify u l n)) \<noteq> built_all_done l \<longrightarrow>
      built_all_done l = Pending \<and>
      (n = Built (circid l) \<or> n = Closed (circid l) \<or> (\<exists>r rr. n = Failed (circid l) r rr))) \<and>
   (built_all_done l = Pending \<longrightarrow>
      built_all_done (fst (notify u l (Built (circid l)))) = Fired None \<and>
      built_all_done (fst (notify u l (Closed (circid l)))) = Fired None \<and>
      built_all_done (fst (notify u l (Failed (circid l) (Some r) (Some rr)))) =
        Fired (Some (RuntimeError (red u ''failed'' @ '' ('' @ r @ '', '' @ rr @ '').''))))"
proof -
  have "built_all_done (fst (notify u l (Built (circid l)))) = Fired None"
    and "built_all_done (fst (notify u l (Closed (circid l)))) = Fired None"
    and "built_all_done (fst (notify u l (Failed (circid l) (Some r) (Some rr)))) =
        Fired (Some (RuntimeError (red u ''failed'' @ '' ('' @ r @ '', '' @ rr @ '').'')))"
    if "built_all_done l = Pending"
    using that
    by (simp_all add: circuit_built_def circuit_closed_def circuit_failed_def
          callback_def errback_def)
  then show ?thesis
    using resolutions_le_1 [of u ns l] notify_other_id [of n l u] notify_change [of u l n]
    by blast
qed

theorem C1_witness:
  "resolutions plain_util [Extend 7 ''A'', Built 8, Extend 7 ''C'', Built 7, Closed 7]
      \<lparr>circid = 7, first = True, built_all_done = Pending\<rparr> = 1 \<and>
   notify plain_util \<lparr>circid = 7, first = True, built_all_done = Pending\<rparr> (Failed 8 None None) =
     (\<lparr>circid = 7, first = True, built_all_done = Pending\<rparr>, [], None) \<and>
   built_all_done (fst (notify plain_util \<lparr>circid = 7, first = True, built_all_done = Pending\<rparr>
      (Failed 7 (Some ''TIMEOUT'') (Some ''NONE'')))) =
     Fired (Some (RuntimeError ''failed (TIMEOUT, NONE).''))"
proof -
  let ?l = "\<lparr>circid = 7, first = True, built_all_done = Pending\<rparr>"
  have r: "resolutions plain_util [Extend 7 ''A'', Built 8, Extend 7 ''C'', Built 7, Closed 7] ?l = 1"
    by (simp add: Let_def circuit_extend_def circuit_built_def circuit_closed_def callback_def)
  from r C1_listener_resolves_once
      [where u = plain_util and l = ?l and n = "Failed 8 None None"
         and ns = "[Extend 7 ''A'', Built 8, Extend 7 ''C'', Built 7, Closed 7]"
         and r = "''TIMEOUT''" and rr = "''NONE''"]
  show ?thesis
    by (simp add: plain_util_def)
qed

text \<open>
  C1, as stated, fails: \<^verbatim>\<open>closed\<close> for the tracked id resolves the signal too; and once
  it has resolved, \<^verbatim>\<open>built\<close> for the tracked id still prints its line and raises
  \<^verbatim>\<open>AlreadyCalledError\<close>, and \<^verbatim>\<open>extend\<close> still writes the router name and clears
  \<^verbatim>\<open>first\<close>.
\<close>

theorem C1_closed_resolves_and_late_built_raises:
  "notify plain_util \<lparr>circid = 7, first = True, built_all_done = Pending\<rparr> (Closed 7) =
     (\<lparr>circid = 7, first = True, built_all_done = Fired None\<rparr>, [Print '': closed.''], None) \<and>
   notify plain_util \<lparr>circid = 7, first = True, built_all_done = Fired None\<rparr> (Built 7) =
     (\<lparr>circid = 7, first = True, built_all_done = Fired None\<rparr>, [Print '': built.''],
      Some AlreadyCalledError) \<and>
   notify plain_util \<lparr>circid = 7, first = True, built_all_done = Fired None\<rparr> (Extend 7 ''A'') =
     (\<lparr>circid = 7, first = False, built_all_done = Fired None\<rparr>, [Write ''A''], None)"
  by (simp add: circuit_extend_def circuit_built_def circuit_closed_def callback_def plain_util_def)


section \<open>Properties of carml\_relay\<close>

lemma refreshes_found: "refreshes rs (Found r, tr) = (Found r, tr)"
  by (induction rs) auto

lemma refreshes_absent:
  "get (routers state) k = None \<Longrightarrow> n \<in> set (callbacks tr) \<Longrightarrow>
   refreshes ((state, now) # rs) (WaitingFor k n, tr) =
   refreshes rs (WaitingFor k (Suc n),
      tr @ [Print (''Got NEWCONSENSUS at '' @ now), AddEventListener ''NEWCONSENSUS'' (Suc n),
            RemoveEventListener ''NEWCONSENSUS'' n])"
  by (simp add: newconsensus_def)

lemma refreshes_present:
  "get (routers state) k = Some r \<Longrightarrow> n \<in> set (callbacks tr) \<Longrightarrow>
   refreshes ((state, now) # rs) (WaitingFor k n, tr) =
     (Found r, tr @ [Print (''Got NEWCONSENSUS at '' @ now), PrintRouterInfo r,
            RemoveEventListener ''NEWCONSENSUS'' n])"
  by (simp add: newconsensus_def refreshes_found)

text \<open>
  C9. For an argument that \<^verbatim>\<open>router_await\<close> accepts: when the router is in the snapshot
  at the start, \<^verbatim>\<open>router_await\<close> has it at once and registers no callback. When it is
  missing at the start and after each of the first three refreshes and present at the
  fourth, \<^verbatim>\<open>router_await\<close> registers a callback and waits; each of the first three
  refreshes prints, registers the next callback and removes the one that ran, and leaves
  the operation waiting; the fourth prints, hands the router to \<^verbatim>\<open>_print_router_info\<close>
  and removes the last callback. Whatever refreshes follow, nothing more is done: the
  router is handed over exactly once and no callback is left registered.
\<close>

theorem C9_await_resolves_on_fourth_refresh:
  assumes ok: "\<not> (\<not> startswith (with_sigil arg) ''$'' \<and> length (with_sigil arg) = 41)"
  shows "(get (routers s0) (with_sigil arg) = Some r \<longrightarrow>
            router_await s0 arg = (Found r, [Print ''Router already present:'', PrintRouterInfo r]) \<and>
            waits (snd (router_await s0 arg)) = 0) \<and>
         (get (routers s0) (with_sigil arg) = None \<and>
          get (routers s1) (with_sigil arg) = None \<and>
          get (routers s2) (with_sigil arg) = None \<and>
          get (routers s3) (with_sigil arg) = None \<and>
          get (routers s4) (with_sigil arg) = Some r \<longrightarrow>
            router_await s0 arg =
              (WaitingFor (with_sigil arg) 0, [AddEventListener ''NEWCONSENSUS'' 0]) \<and>
            refreshes [(s1, t1)] (router_await s0 arg) =
              (WaitingFor (with_sigil arg) 1,
               [AddEventListener ''NEWCONSENSUS'' 0,
                Print (''Got NEWCONSENSUS at '' @ t1), AddEventListener ''NEWCONSENSUS'' 1,
                RemoveEventListener ''NEWCONSENSUS'' 0]) \<and>
            refreshes [(s1, t1), (s2, t2)] (router_await s0 arg) =
              (WaitingFor (with_sigil arg) 2,
               [AddEventListener ''NEWCONSENSUS'' 0,
                Print (''Got NEWCONSENSUS at '' @ t1), AddEventListener ''NEWCONSENSUS'' 1,
                RemoveEventListener ''NEWCONSENSUS'' 0,
                Print (''Got NEWCONSENSUS at '' @ t2), AddEventListener ''NEWCONSENSUS'' 2,
                RemoveEventListener ''NEWCONSENSUS'' 1]) \<and>
            refreshes [(s1, t1), (s2, t2), (s3, t3)] (router_await s0 arg) =
              (WaitingFor (with_sigil arg) 3,
               [AddEventListener ''NEWCONSENSUS'' 0,
                Print (''Got NEWCONSENSUS at '' @ t1), AddEventListener ''NEWCONSENSUS'' 1,
                RemoveEventListener ''NEWCONSENSUS'' 0,
                Print (''Got NEWCONSENSUS at '' @ t2), AddEventListener ''NEWCONSENSUS'' 2,
                RemoveEventListener ''NEWCONSENSUS'' 1,
                Print (''Got NEWCONSENSUS at '' @ t3), AddEventListener ''NEWCONSENSUS'' 3,
                RemoveEventListener ''NEWCONSENSUS'' 2]) \<and>
            refreshes ([(s1, t1), (s2, t2), (s3, t3), (s4, t4)] @ later) (router_await s0 arg) =
              (Found r,
               [AddEventListener ''NEWCONSENSUS'' 0,
                Print (''Got NEWCONSENSUS at '' @ t1), AddEventListener ''NEWCONSENSUS'' 1,
                RemoveEventListener ''NEWCONSENSUS'' 0,
                Print (''Got NEWCONSENSUS at '' @ t2), AddEventListener ''NEWCONSENSUS'' 2,
                RemoveEventListener ''NEWCONSENSUS'' 1,
                Print (''Got NEWCONSENSUS at '' @ t3), AddEventListener ''NEWCONSENSUS'' 3,
                RemoveEventListener ''NEWCONSENSUS'' 2,
                Print (''Got NEWCONSENSUS at '' @ t4), PrintRouterInfo r,
                RemoveEventListener ''NEWCONSENSUS'' 3]) \<and>
            resolved_with
              (snd (refreshes ([(s1, t1), (s2, t2), (s3, t3), (s4, t4)] @ later) (router_await s0 arg))) =
              [r] \<and>
            callbacks
              (snd (refreshes ([(s1, t1), (s2, t2), (s3, t3), (s4, t4)] @ later) (router_await s0 arg))) =
              [])"
proof -
  let ?k = "with_sigil arg"
  let ?tr0 = "[AddEventListener ''NEWCONSENSUS'' 0]"
  let ?tr1 = "[AddEventListener ''NEWCONSENSUS'' 0,
                Print (''Got NEWCONSENSUS at '' @ t1), AddEventListener ''NEWCONSENSUS'' 1,
                RemoveEventListener ''NEWCONSENSUS'' 0]"
  let ?tr2 = "[AddEventListener ''NEWCONSENSUS'' 0,
                Print (''Got NEWCONSENSUS at '' @ t1), AddEventListener ''NEWCONSENSUS'' 1,
                RemoveEventListener ''NEWCONSENSUS'' 0,
                Print (''Got NEWCONSENSUS at '' @ t2), AddEventListener ''NEWCONSENSUS'' 2,
                RemoveEventListener ''NEWCONSENSUS'' 1]"
  let ?tr3 = "[AddEventListener ''NEWCONSENSUS'' 0,
                Print (''Got NEWCONSENSUS at '' @ t1), AddEventListener ''NEWCONSENSUS'' 1,
                RemoveEventListener ''NEWCONSENSUS'' 0,
                Print (''Got NEWCONSENSUS at '' @ t2), AddEventListener ''NEWCONSENSUS'' 2,
                RemoveEventListener ''NEWCONSENSUS'' 1,
                Print (''Got NEWCONSENSUS at '' @ t3), AddEventListener ''NEWCONSENSUS'' 3,
                RemoveEventListener ''NEWCONSENSUS'' 2]"
  let ?tr4 = "[AddEventListener ''NEWCONSENSUS'' 0,
                Print (''Got NEWCONSENSUS at '' @ t1), AddEventListener ''NEWCONSENSUS'' 1,
                RemoveEventListener ''NEWCONSENSUS'' 0,
                Print (''Got NEWCONSENSUS at '' @ t2), AddEventListener ''NEWCONSENSUS'' 2,
                RemoveEventListener ''NEWCONSENSUS'' 1,
                Print (''Got NEWCONSENSUS at '' @ t3), AddEventListener ''NEWCONSENSUS'' 3,
                RemoveEventListener ''NEWCONSENSUS'' 2,
                Print (''Got NEWCONSENSUS at '' @ t4), PrintRouterInfo r,
                RemoveEventListener ''NEWCONSENSUS'' 3]"
  have present: "router_await s0 arg = (Found r, [Print ''Router already present:'', PrintRouterInfo r])"
    if "get (routers s0) ?k = Some r"
    using that ok by (simp add: router_await_def Let_def)
  have start: "router_await s0 arg = (WaitingFor ?k 0, ?tr0)"
    if "get (routers s0) ?k = None"
    using that ok by (simp add: router_await_def Let_def)
  have c0: "0 \<in> set (callbacks ?tr0)" and c1: "1 \<in> set (callbacks ?tr1)"
    and c2: "2 \<in> set (callbacks ?tr2)" and c3: "3 \<in> set (callbacks ?tr3)"
    and c4: "callbacks ?tr4 = []"
    by (simp_all add: callbacks_def)
  have step1: "refreshes ((s1, t1) # rs) (WaitingFor ?k 0, ?tr0) = refreshes rs (WaitingFor ?k 1, ?tr1)"
    if "get (routers s1) ?k = None" for rs
    using refreshes_absent [OF that c0, of t1 rs] by simp
  have step2: "refreshes ((s2, t2) # rs) (WaitingFor ?k 1, ?tr1) = refreshes rs (WaitingFor ?k 2, ?tr2)"
    if "get (routers s2) ?k = None" for rs
    using refreshes_absent [OF that c1, of t2 rs] by (simp add: numeral_2_eq_2)
  have step3: "refreshes ((s3, t3) # rs) (WaitingFor ?k 2, ?tr2) = refreshes rs (WaitingFor ?k 3, ?tr3)"
    if "get (routers s3) ?k = None" for rs
    using refreshes_absent [OF that c2, of t3 rs] by (simp add: numeral_3_eq_3)
  have step4: "refreshes ((s4, t4) # rs) (WaitingFor ?k 3, ?tr3) = (Found r, ?tr4)"
    if "get (routers s4) ?k = Some r" for rs
    using refreshes_present [OF that c3, of t4 rs] by simp
  show ?thesis
  proof (intro conjI impI)
    assume "get (routers s0) ?k = Some r"
    then show "router_await s0 arg = (Found r, [Print ''Router already present:'', PrintRouterInfo r])"
      by (rule present)
    then show "waits (snd (router_await s0 arg)) = 0" by simp
  next
    assume a: "get (routers s0) ?k = None \<and> get (routers s1) ?k = None \<and>
          get (routers s2) ?k = None \<and> get (routers s3) ?k = None \<and>
          get (routers s4) ?k = Some r"
    then have st: "router_await s0 arg = (WaitingFor ?k 0, ?tr0)"
      using start by blast
    have a1: "get (routers s1) ?k = None" and a2: "get (routers s2) ?k = None"
      and a3: "get (routers s3) ?k = None" and a4: "get (routers s4) ?k = Some r"
      using a by simp_all
    show "router_await s0 arg = (WaitingFor ?k 0, ?tr0)"
      by (rule st)
    show "refreshes [(s1, t1)] (router_await s0 arg) = (WaitingFor ?k 1, ?tr1)"
      unfolding st step1 [OF a1] by simp
    show "refreshes [(s1, t1), (s2, t2)] (router_await s0 arg) = (WaitingFor ?k 2, ?tr2)"
      unfolding st step1 [OF a1] step2 [OF a2] by simp
    show "refreshes [(s1, t1), (s2, t2), (s3, t3)] (router_await s0 arg) = (WaitingFor ?k 3, ?tr3)"
      unfolding st step1 [OF a1] step2 [OF a2] step3 [OF a3] by simp
    have "refreshes ((s1, t1) # (s2, t2) # (s3, t3) # (s4, t4) # later) (router_await s0 arg) =
        (Found r, ?tr4)"
      unfolding st step1 [OF a1] step2 [OF a2] step3 [OF a3] step4 [OF a4]
      by (rule refl)
    then have fin: "refreshes ([(s1, t1), (s2, t2), (s3, t3), (s4, t4)] @ later) (router_await s0 arg) =
        (Found r, ?tr4)"
      by (simp del: refreshes.simps(2))
    show "refreshes ([(s1, t1), (s2, t2), (s3, t3), (s4, t4)] @ later) (router_await s0 arg) =
        (Found r, ?tr4)"
      by (rule fin)
    show "resolved_with
              (snd (refreshes ([(s1, t1), (s2, t2), (s3, t3), (s4, t4)] @ later) (router_await s0 arg))) =
              [r]"
      unfolding fin by simp
    show "callbacks
              (snd (refreshes ([(s1, t1), (s2, t2), (s3, t3), (s4, t4)] @ later) (router_await s0 arg))) =
              []"
      unfolding fin snd_conv by (rule c4)
  qed
qed

theorem C9_witness:
  "refreshes [(example_state, ''19:00''), (example_state, ''20:00''), (example_state, ''21:00'')]
          (router_await example_state ''0123456789ABCDEF0123456789ABCDEF01234567'') =
     (WaitingFor ''$0123456789ABCDEF0123456789ABCDEF01234567'' 3,
      [AddEventListener ''NEWCONSENSUS'' 0,
       Print ''Got NEWCONSENSUS at 19:00'', AddEventListener ''NEWCONSENSUS'' 1,
       RemoveEventListener ''NEWCONSENSUS'' 0,
       Print ''Got NEWCONSENSUS at 20:00'', AddEventListener ''NEWCONSENSUS'' 2,
       RemoveEventListener ''NEWCONSENSUS'' 1,
       Print ''Got NEWCONSENSUS at 21:00'', AddEventListener ''NEWCONSENSUS'' 3,
       RemoveEventListener ''NEWCONSENSUS'' 2]) \<and>
   refreshes [(example_state, ''19:00''), (example_state, ''20:00''), (example_state, ''21:00''),
              (example_state_x, ''22:00''), (example_state_x, ''23:00'')]
          (router_await example_state ''0123456789ABCDEF0123456789ABCDEF01234567'') =
     (Found router_x,
      [AddEventListener ''NEWCONSENSUS'' 0,
       Print ''Got NEWCONSENSUS at 19:00'', AddEventListener ''NEWCONSENSUS'' 1,
       RemoveEventListener ''NEWCONSENSUS'' 0,
       Print ''Got NEWCONSENSUS at 20:00'', AddEventListener ''NEWCONSENSUS'' 2,
       RemoveEventListener ''NEWCONSENSUS'' 1,
       Print ''Got NEWCONSENSUS at 21:00'', AddEventListener ''NEWCONSENSUS'' 3,
       RemoveEventListener ''NEWCONSENSUS'' 2,
       Print ''Got NEWCONSENSUS at 22:00'', PrintRouterInfo router_x,
       RemoveEventListener ''NEWCONSENSUS'' 3]) \<and>
   router_await example_state_x ''0123456789ABCDEF0123456789ABCDEF01234567'' =
     (Found router_x, [Print ''Router already present:'', PrintRouterInfo router_x])"
proof -
  let ?arg = "''0123456789ABCDEF0123456789ABCDEF01234567''"
  let ?k = "''$0123456789ABCDEF0123456789ABCDEF01234567''"
  have k: "with_sigil ?arg = ?k"
    by (simp add: with_sigil_def startswith_def)
  have ok: "\<not> (\<not> startswith (with_sigil ?arg) ''$'' \<and> length (with_sigil ?arg) = 41)"
    by (simp add: k startswith_def)
  have absent: "get (routers example_state) ?k = None"
    by (simp add: get_def example_state_def)
  have present: "get (routers example_state_x) ?k = Some router_x"
    by (simp add: get_def example_state_x_def)
  have wait: "get (routers example_state) (with_sigil ?arg) = None \<and>
      get (routers example_state) (with_sigil ?arg) = None \<and>
      get (routers example_state) (with_sigil ?arg) = None \<and>
      get (routers example_state) (with_sigil ?arg) = None \<and>
      get (routers example_state_x) (with_sigil ?arg) = Some router_x"
    by (simp only: k absent present simp_thms)
  have here: "get (routers example_state_x) (with_sigil ?arg) = Some router_x"
    by (simp only: k present)
  note first = C9_await_resolves_on_fourth_refresh
    [OF ok, where ?s0.0 = example_state and ?s1.0 = example_state and ?s2.0 = example_state
       and ?s3.0 = example_state and ?s4.0 = example_state_x and r = router_x
       and ?t1.0 = "''19:00''" and ?t2.0 = "''20:00''" and ?t3.0 = "''21:00''"
       and ?t4.0 = "''22:00''" and later = "[(example_state_x, ''23:00'')]"]
  note second = C9_await_resolves_on_fourth_refresh
    [OF ok, where ?s0.0 = example_state_x and r = router_x]
  note waited = first [THEN conjunct2, THEN mp, OF wait]
  note after3 = waited [THEN conjunct2, THEN conjunct2, THEN conjunct2, THEN conjunct1]
  note after5 = waited [THEN conjunct2, THEN conjunct2, THEN conjunct2, THEN conjunct2,
                        THEN conjunct1]
  note at_once = second [THEN conjunct1, THEN mp, OF here, THEN conjunct1]
  from after3 after5 at_once show ?thesis
    unfolding k by (simp del: refreshes.simps(2))
qed


section \<open>Properties of the batch deletion\<close>



lemma resume_settled: "delete_circuit_resume c u (Settled r) ev = (Settled r, [])"
  by simp














end
